theory Spec2Isabelle
  imports
    Complex_Main
    "HOL-Library.Char_ord"
    "HOL-Library.List_Lexorder"
    "HOL-Library.Product_Lexorder"
begin

section \<open>The fashion trend pipeline (scripts/pipeline.py)\<close>

text \<open>
  The script reads a table of posts with pandas, derives tags, an engagement score and a
  week label for every post, aggregates per (week, tag) and ranks the tags by the change
  of their post counts. The embedding below follows the script line by line. A pandas
  column is a list, a missing cell (NaN, None, NaT) is \<open>None\<close>, a \<open>Series\<close> with
  an index is an association list in index order, float64 values are real numbers
  (rounding is not modelled). Python strings are \<open>string\<close>s compared
  lexicographically by character code, which is the order of Python's \<open>sorted\<close>
  on \<open>str\<close>; only the ASCII part of the character classes is modelled.
\<close>

subsection \<open>Controlled vocabulary\<close>

definition COLOR_WORDS :: "string list" where
  "COLOR_WORDS = [''red'', ''blue'', ''black'', ''white'', ''green'', ''beige'', ''pastel'']"

definition STYLE_WORDS :: "string list" where
  "STYLE_WORDS = [''denim'', ''linen'', ''leather'', ''knit'', ''floral'']"

definition MOOD_WORDS :: "string list" where
  "MOOD_WORDS = [''minimal'', ''romantic'', ''edgy'', ''cozy'', ''casual'', ''bold'',
     ''confident'', ''lightweight'', ''mood'']"

definition TAG_WORDS :: "string set" where
  "TAG_WORDS = set (COLOR_WORDS @ STYLE_WORDS @ MOOD_WORDS)"

subsection \<open>Character classes of the regular expressions\<close>

text \<open>
  \<open>\S\<close> and \<open>str.strip\<close> use Python's whitespace test, which on ASCII holds for the
  codes 9 to 13 and 28 to 32; \<open>\w\<close> is a letter, a digit or the underscore.
\<close>

definition is_space :: "char \<Rightarrow> bool" where
  "is_space c = (let n = (of_char c :: nat) in (9 \<le> n \<and> n \<le> 13) \<or> (28 \<le> n \<and> n \<le> 32))"

definition is_az :: "char \<Rightarrow> bool" where
  "is_az c = (let n = (of_char c :: nat) in 97 \<le> n \<and> n \<le> 122)"

definition is_AZ :: "char \<Rightarrow> bool" where
  "is_AZ c = (let n = (of_char c :: nat) in 65 \<le> n \<and> n \<le> 90)"

definition is_digit :: "char \<Rightarrow> bool" where
  "is_digit c = (let n = (of_char c :: nat) in 48 \<le> n \<and> n \<le> 57)"

definition is_word :: "char \<Rightarrow> bool" where
  "is_word c = (is_az c \<or> is_AZ c \<or> is_digit c \<or> c = CHR ''_'')"

definition lower_char :: "char \<Rightarrow> char" where
  "lower_char c = (if is_AZ c then char_of ((of_char c :: nat) + 32) else c)"

definition lower :: "string \<Rightarrow> string" where
  "lower s = map lower_char s"

definition strip :: "string \<Rightarrow> string" where
  "strip s = rev (dropWhile is_space (rev (dropWhile is_space s)))"

definition starts_with :: "string \<Rightarrow> string \<Rightarrow> bool" where
  "starts_with p s = (take (length p) s = p)"

subsection \<open>Text normalizer\<close>

text \<open>
  \<open>URL_RE.sub("", s)\<close> with \<open>URL_RE = http\S+|www\.\S+\<close>: scanning from the left, a
  match starts where the text reads \<open>http\<close> or \<open>www.\<close> followed by at least one
  non-space character, and takes all non-space characters that follow.
\<close>

definition url_match :: "string \<Rightarrow> bool" where
  "url_match s =
     ((starts_with ''http'' s \<or> starts_with ''www.'' s) \<and>
      takeWhile (\<lambda>x. \<not> is_space x) (drop 4 s) \<noteq> [])"

function URL_RE_sub :: "string \<Rightarrow> string" where
  "URL_RE_sub [] = []"
| "URL_RE_sub (c # cs) =
     (if url_match (c # cs)
      then URL_RE_sub (dropWhile (\<lambda>x. \<not> is_space x) (drop 4 (c # cs)))
      else c # URL_RE_sub cs)"
  by pat_completeness auto
termination
proof (relation "measure length")
  show "wf (measure (length :: string \<Rightarrow> nat))" by simp
next
  fix c :: char and cs :: string
  have "length (dropWhile (\<lambda>x. \<not> is_space x) (drop 3 cs)) \<le> length (drop 3 cs)"
    by (rule length_dropWhile_le)
  then show "(dropWhile (\<lambda>x. \<not> is_space x) (drop 4 (c # cs)), c # cs) \<in> measure length"
    by simp
next
  fix c :: char and cs :: string
  show "(cs, c # cs) \<in> measure length" by simp
qed

text \<open>\<open>clean_text\<close>: \<open>s or ""\<close> turns \<open>None\<close> (and the empty string) into the empty string.\<close>

definition clean_text :: "string option \<Rightarrow> string" where
  "clean_text s = strip (URL_RE_sub (case s of None \<Rightarrow> [] | Some t \<Rightarrow> t))"

text \<open>\<open>HASHTAG_RE.findall\<close> with \<open>HASHTAG_RE = #(\w+)\<close>.\<close>

function HASHTAG_RE_findall :: "string \<Rightarrow> string list" where
  "HASHTAG_RE_findall [] = []"
| "HASHTAG_RE_findall (c # cs) =
     (if c = CHR ''#'' \<and> takeWhile is_word cs \<noteq> []
      then takeWhile is_word cs # HASHTAG_RE_findall (dropWhile is_word cs)
      else HASHTAG_RE_findall cs)"
  by pat_completeness auto
termination
proof (relation "measure length")
  show "wf (measure (length :: string \<Rightarrow> nat))" by simp
next
  fix c :: char and cs :: string
  have "length (dropWhile is_word cs) \<le> length cs"
    by (rule length_dropWhile_le)
  then show "(dropWhile is_word cs, c # cs) \<in> measure length"
    by simp
next
  fix c :: char and cs :: string
  show "(cs, c # cs) \<in> measure length" by simp
qed

definition extract_hashtags :: "string option \<Rightarrow> string list" where
  "extract_hashtags s = map lower (HASHTAG_RE_findall (case s of None \<Rightarrow> [] | Some t \<Rightarrow> t))"

text \<open>\<open>.str.findall(r"[a-z]+")\<close>: the maximal runs of the letters a to z.\<close>

function findall_az :: "string \<Rightarrow> string list" where
  "findall_az [] = []"
| "findall_az (c # cs) =
     (if is_az c
      then (c # takeWhile is_az cs) # findall_az (dropWhile is_az cs)
      else findall_az cs)"
  by pat_completeness auto
termination
proof (relation "measure length")
  show "wf (measure (length :: string \<Rightarrow> nat))" by simp
next
  fix c :: char and cs :: string
  have "length (dropWhile is_az cs) \<le> length cs"
    by (rule length_dropWhile_le)
  then show "(dropWhile is_az cs, c # cs) \<in> measure length"
    by simp
next
  fix c :: char and cs :: string
  show "(cs, c # cs) \<in> measure length" by simp
qed

text \<open>
  \<open>Series.astype(str)\<close> applies \<open>str\<close> to every cell, the missing ones included:
  a missing cell becomes the three-letter string \<open>nan\<close>.
\<close>

definition astype_str :: "string option \<Rightarrow> string" where
  "astype_str c = (case c of None \<Rightarrow> ''nan'' | Some t \<Rightarrow> t)"

subsection \<open>Tag extractor\<close>

text \<open>\<open>sorted({t for t in xs if t in TAG_WORDS})\<close>.\<close>

definition sorted_set :: "string list \<Rightarrow> string list" where
  "sorted_set xs = sort (remdups xs)"

definition keyword_tags :: "string list \<Rightarrow> string list" where
  "keyword_tags tokens = sorted_set (filter (\<lambda>t. t \<in> TAG_WORDS) tokens)"

definition combine_tags :: "string list \<Rightarrow> string list \<Rightarrow> string list" where
  "combine_tags hashtags kw_tags = sorted_set (filter (\<lambda>t. t \<in> TAG_WORDS) (hashtags @ kw_tags))"

subsection \<open>Engagement scorer\<close>

definition fillna0 :: "real option \<Rightarrow> real" where
  "fillna0 v = (case v of None \<Rightarrow> 0 | Some x \<Rightarrow> x)"

definition engagement_of :: "real option \<Rightarrow> real option \<Rightarrow> real" where
  "engagement_of l v = fillna0 l + 0.1 * fillna0 v"

subsection \<open>Input table and environment\<close>

text \<open>
  A row of the table returned by \<open>pd.read_csv\<close>: every cell may be missing (the column
  \<open>text\<close> is the field \<open>raw_text\<close>). The date
  cell is kept as text; the numbers are already parsed.
\<close>

record post =
  post_id :: "string option"
  date :: "string option"
  raw_text :: "string option"
  likes :: "real option"
  views :: "real option"

text \<open>
  What the script takes from its libraries: whether the import of the sentiment analyzer
  succeeded, the analyzer's compound score, \<open>pd.to_datetime(column, errors="coerce")\<close>
  (the value of a cell may depend on the whole column, since pandas infers one format
  per column; \<open>None\<close> is \<open>NaT\<close>), and \<open>strftime("%G-W%V")\<close> on a timestamp.
\<close>

record 'd env =
  HAVE_VADER :: bool
  polarity_compound :: "string \<Rightarrow> real"
  to_datetime :: "string option list \<Rightarrow> string option \<Rightarrow> 'd option"
  strftime_GV :: "'d \<Rightarrow> string"

text \<open>A row of \<open>df\<close> once all derived columns are there (line 84 of the script).\<close>

record 'd row =
  src :: post
  timestamp :: 'd
  text_clean :: string
  hashtags :: "string list"
  tokens :: "string list"
  kw_tags :: "string list"
  all_tags :: "string list"
  engagement :: real
  sentiment :: "real option"
  week :: string

subsection \<open>Row-level stages of main\<close>

text \<open>Lines 63 and 64: parse the date column, drop the rows whose date is \<open>NaT\<close>.\<close>

definition dropna_date :: "'d env \<Rightarrow> post list \<Rightarrow> (post \<times> 'd) list" where
  "dropna_date E df =
     concat (map (\<lambda>p. case to_datetime E (map date df) (date p) of
                          None \<Rightarrow> [] | Some d \<Rightarrow> [(p, d)]) df)"

text \<open>\<open>add_sentiment\<close>: \<open>None\<close> for every row without the analyzer, else the score of
  \<open>text.fillna("")\<close>.\<close>

definition add_sentiment :: "'d env \<Rightarrow> string option \<Rightarrow> real option" where
  "add_sentiment E t =
     (if \<not> HAVE_VADER E then None
      else Some (polarity_compound E (case t of None \<Rightarrow> [] | Some s \<Rightarrow> s)))"

text \<open>\<open>safe_week\<close>: in \<open>main\<close> the argument is a timestamp of the parsed date column,
  never a \<open>str\<close>, so the \<open>fromisoformat\<close> branch is not taken.\<close>

definition safe_week :: "'d env \<Rightarrow> 'd \<Rightarrow> string" where
  "safe_week E d = strftime_GV E d"

text \<open>Lines 67 to 84 for one surviving row.\<close>

definition derive :: "'d env \<Rightarrow> post \<times> 'd \<Rightarrow> 'd row" where
  "derive E pd =
     (let p = fst pd;
          tc = lower (clean_text (Some (astype_str (raw_text p))));
          hs = extract_hashtags (Some tc);
          ts = findall_az tc;
          kw = keyword_tags ts
      in \<lparr> src = p, timestamp = snd pd, text_clean = tc, hashtags = hs, tokens = ts,
           kw_tags = kw, all_tags = combine_tags hs kw,
           engagement = engagement_of (likes p) (views p),
           sentiment = add_sentiment E (raw_text p),
           week = safe_week E (snd pd) \<rparr>)"

definition normalized :: "'d env \<Rightarrow> post list \<Rightarrow> 'd row list" where
  "normalized E df = map (derive E) (dropna_date E df)"

subsection \<open>Weekly aggregator\<close>

text \<open>
  \<open>df.explode("all_tags")\<close> gives one row per list element and, for an empty list, one
  row whose tag is missing; \<open>dropna(subset=["all_tags"])\<close> removes the latter.
\<close>

definition explode :: "'d row list \<Rightarrow> ('d row \<times> string option) list" where
  "explode df =
     concat (map (\<lambda>r. if all_tags r = [] then [(r, None)]
                       else map (\<lambda>t. (r, Some t)) (all_tags r)) df)"

definition dropna_all_tags :: "('d row \<times> string option) list \<Rightarrow> ('d row \<times> string) list" where
  "dropna_all_tags ex =
     concat (map (\<lambda>rc. case snd rc of None \<Rightarrow> [] | Some t \<Rightarrow> [(fst rc, t)]) ex)"

definition exploded :: "'d row list \<Rightarrow> ('d row \<times> string) list" where
  "exploded df = dropna_all_tags (explode df)"

text \<open>
  \<open>groupby(["week","all_tags"], as_index=False)\<close>: one group per key that occurs, the
  groups in ascending key order. \<open>count\<close> counts the cells that are not missing,
  \<open>mean\<close> averages the cells that are not missing and is missing when there are none.
\<close>

definition row_key :: "'d row \<times> string \<Rightarrow> string \<times> string" where
  "row_key rt = (week (fst rt), snd rt)"

definition group_keys :: "('d row \<times> string) list \<Rightarrow> (string \<times> string) list" where
  "group_keys ex = sort (remdups (map row_key ex))"

definition group_of :: "('d row \<times> string) list \<Rightarrow> string \<times> string \<Rightarrow> ('d row \<times> string) list" where
  "group_of ex k = filter (\<lambda>rt. row_key rt = k) ex"

definition count_notna :: "'a option list \<Rightarrow> nat" where
  "count_notna cs = length (filter (\<lambda>c. c \<noteq> None) cs)"

definition notna_values :: "'a option list \<Rightarrow> 'a list" where
  "notna_values cs = concat (map (\<lambda>c. case c of None \<Rightarrow> [] | Some x \<Rightarrow> [x]) cs)"

definition mean :: "real list \<Rightarrow> real option" where
  "mean xs = (if xs = [] then None else Some (sum_list xs / real (length xs)))"

record summary_row =
  s_week :: string
  s_tag :: string
  posts :: nat
  avg_engagement :: "real option"
  avg_sentiment :: "real option"

definition agg :: "('d row \<times> string) list \<Rightarrow> string \<times> string \<Rightarrow> summary_row" where
  "agg ex k =
     (let g = map fst (group_of ex k)
      in \<lparr> s_week = fst k, s_tag = snd k,
           posts = count_notna (map (\<lambda>r. post_id (src r)) g),
           avg_engagement = mean (map engagement g),
           avg_sentiment = mean (notna_values (map sentiment g)) \<rparr>)"

definition weekly_summary :: "'d row list \<Rightarrow> summary_row list" where
  "weekly_summary df = (let ex = exploded df in map (agg ex) (group_keys ex))"

subsection \<open>Trend ranker\<close>

text \<open>
  A pandas \<open>Series\<close> indexed by tag: the labels in index order, each with its value.
\<close>

type_synonym 'v series = "(string \<times> 'v) list"

text \<open>\<open>sorted(weekly["week"].unique())\<close>, and the slices \<open>[-2:]\<close> and \<open>[-4:-2]\<close>, which
  Python clips to the list (no error on a short list).\<close>

definition weeks_sorted :: "summary_row list \<Rightarrow> string list" where
  "weeks_sorted weekly = sort (remdups (map s_week weekly))"

definition recent_of :: "'a list \<Rightarrow> 'a list" where
  "recent_of ws = drop (length ws - 2) ws"

definition prior_of :: "'a list \<Rightarrow> 'a list" where
  "prior_of ws = drop (length ws - 4) (take (length ws - 2) ws)"

text \<open>\<open>weekly[weekly["week"].isin(ws)]\<close> and \<open>.groupby("all_tags")["posts"].sum()\<close>:
  one label per tag that occurs, in ascending order.\<close>

definition isin_weeks :: "summary_row list \<Rightarrow> string list \<Rightarrow> summary_row list" where
  "isin_weeks weekly ws = filter (\<lambda>r. s_week r \<in> set ws) weekly"

definition posts_sum :: "summary_row list \<Rightarrow> int series" where
  "posts_sum rows =
     map (\<lambda>t. (t, sum_list (map (\<lambda>r. int (posts r)) (filter (\<lambda>r. s_tag r = t) rows))))
         (sort (remdups (map s_tag rows)))"

text \<open>
  \<open>a - b\<close> aligns the two series on the union of their labels, in ascending order; a
  label that one side lacks gets a missing value. \<open>.fillna(c)\<close> replaces a missing
  value by the value of \<open>c\<close> at the same label, if \<open>c\<close> has that label.
\<close>

definition series_sub :: "int series \<Rightarrow> int series \<Rightarrow> int option series" where
  "series_sub a b =
     map (\<lambda>t. (t, case (map_of a t, map_of b t) of
                     (Some x, Some y) \<Rightarrow> Some (x - y)
                   | _ \<Rightarrow> None))
         (sort (remdups (map fst a @ map fst b)))"

definition fillna_series :: "int option series \<Rightarrow> int series \<Rightarrow> int option series" where
  "fillna_series s c = map (\<lambda>tv. (fst tv, case snd tv of None \<Rightarrow> map_of c (fst tv) | Some x \<Rightarrow> Some x)) s"

text \<open>
  \<open>.sort_values(ascending=False)\<close>: the values that are present in descending order,
  then the labels whose value is missing. pandas reverses the present entries, sorts them
  ascending and reverses the outcome; with a stable sort, which is what the model takes,
  equal values keep their index order.
\<close>

definition present :: "'v option series \<Rightarrow> 'v series" where
  "present s = concat (map (\<lambda>tv. case snd tv of None \<Rightarrow> [] | Some x \<Rightarrow> [(fst tv, x)]) s)"

definition missing :: "'v option series \<Rightarrow> 'v option series" where
  "missing s = filter (\<lambda>tv. snd tv = None) s"

definition sort_values_desc :: "int option series \<Rightarrow> int option series" where
  "sort_values_desc s =
     map (\<lambda>tv. (fst tv, Some (snd tv))) (rev (sort_key snd (rev (present s)))) @ missing s"

definition head5_index :: "'v series \<Rightarrow> string list" where
  "head5_index s = map fst (take 5 s)"

text \<open>
  Lines 100 to 109. The body of the \<open>try\<close> block returns \<open>Inr\<close>; no operation in it
  raises on a table that \<open>groupby\<close> has produced, so the handler's ranking is never
  taken.
\<close>

datatype exn = Exception

definition delta_series :: "summary_row list \<Rightarrow> int option series" where
  "delta_series weekly =
     (let ws = weeks_sorted weekly;
          recent = recent_of ws;
          prior = prior_of ws;
          recent_sum = posts_sum (isin_weeks weekly recent);
          prior_sum = posts_sum (isin_weeks weekly prior)
      in sort_values_desc (fillna_series (series_sub recent_sum prior_sum) recent_sum))"

definition rising_try :: "summary_row list \<Rightarrow> exn + string list" where
  "rising_try weekly = Inr (head5_index (delta_series weekly))"

definition rising_fallback :: "summary_row list \<Rightarrow> string list" where
  "rising_fallback weekly =
     head5_index (sort_values_desc (map (\<lambda>tv. (fst tv, Some (snd tv))) (posts_sum weekly)))"

definition rising_tags :: "summary_row list \<Rightarrow> string list" where
  "rising_tags weekly =
     (case rising_try weekly of Inr r \<Rightarrow> r | Inl e \<Rightarrow> rising_fallback weekly)"

subsection \<open>The run\<close>

text \<open>The table written to \<open>weekly_tag_summary.csv\<close> and the list \<open>rising\<close>, from which
  the chart and the report are drawn. Creating directories, plotting and writing the
  files are left out.\<close>

record outputs =
  weekly :: "summary_row list"
  rising :: "string list"

definition main :: "'d env \<Rightarrow> post list \<Rightarrow> outputs" where
  "main E df =
     (let w = weekly_summary (normalized E df)
      in \<lparr> weekly = w, rising = rising_tags w \<rparr>)"

subsection \<open>The week label on a column with missing timestamps\<close>



subsection \<open>Notions used to state the properties\<close>

text \<open>The post counts of a tag in the recent weeks, in the prior weeks and in all weeks of
  a summary table: the sum of \<open>posts\<close> over the tag's rows there, 0 if it has none.\<close>

definition recent_weeks :: "summary_row list \<Rightarrow> string list" where
  "recent_weeks w = recent_of (weeks_sorted w)"

definition prior_weeks :: "summary_row list \<Rightarrow> string list" where
  "prior_weeks w = prior_of (weeks_sorted w)"

definition posts_in :: "string list \<Rightarrow> summary_row list \<Rightarrow> string \<Rightarrow> int" where
  "posts_in ws w t =
     sum_list (map (\<lambda>r. int (posts r)) (filter (\<lambda>r. s_tag r = t) (isin_weeks w ws)))"

definition recent_posts :: "summary_row list \<Rightarrow> string \<Rightarrow> int" where
  "recent_posts w t = posts_in (recent_weeks w) w t"

definition prior_posts :: "summary_row list \<Rightarrow> string \<Rightarrow> int" where
  "prior_posts w t = posts_in (prior_weeks w) w t"

definition total_posts :: "summary_row list \<Rightarrow> string \<Rightarrow> int" where
  "total_posts w t = sum_list (map (\<lambda>r. int (posts r)) (filter (\<lambda>r. s_tag r = t) w))"

definition tags_in :: "string list \<Rightarrow> summary_row list \<Rightarrow> string set" where
  "tags_in ws w = s_tag ` set (isin_weeks w ws)"

text \<open>The delta of the specification: recent minus prior, each 0 where the tag is absent.\<close>

definition spec_delta :: "summary_row list \<Rightarrow> string \<Rightarrow> int" where
  "spec_delta w t = recent_posts w t - prior_posts w t"

text \<open>A list of tags is ranked by a score, best first.\<close>

definition ranked_desc :: "(string \<Rightarrow> int) \<Rightarrow> string list \<Rightarrow> bool" where
  "ranked_desc score l = sorted_wrt (\<lambda>a b. score b \<le> score a) l"

text \<open>
  \<open>l\<close> is the top \<open>n\<close> of the candidates \<open>C\<close> by \<open>score\<close>: no repetition, only
  candidates, as many as there are up to \<open>n\<close>, best first, and no candidate left out
  beats one that is listed. Ties may be broken either way.
\<close>

definition top_ranked :: "nat \<Rightarrow> (string \<Rightarrow> int) \<Rightarrow> string set \<Rightarrow> string list \<Rightarrow> bool" where
  "top_ranked n score C l =
     (distinct l \<and> set l \<subseteq> C \<and> length l = min n (card C) \<and> ranked_desc score l \<and>
      (\<forall>t \<in> C - set l. \<forall>u \<in> set l. score t \<le> score u))"

text \<open>The order of \<open>sort_values(ascending=False)\<close> on values: a missing value comes
  after every value, values descend.\<close>

definition delta_ge :: "int option \<Rightarrow> int option \<Rightarrow> bool" where
  "delta_ge a b =
     (case b of None \<Rightarrow> True
      | Some y \<Rightarrow> (case a of None \<Rightarrow> False | Some x \<Rightarrow> y \<le> x))"

text \<open>The group of a (week, tag) pair: the posts of that week that carry the tag.\<close>

definition tagged_in :: "'d row list \<Rightarrow> string \<times> string \<Rightarrow> 'd row list" where
  "tagged_in df k = filter (\<lambda>r. week r = fst k \<and> snd k \<in> set (all_tags r)) df"

text \<open>The columns of a summary row other than \<open>avg_sentiment\<close>.\<close>

definition other_columns :: "summary_row \<Rightarrow> string \<times> string \<times> nat \<times> real option" where
  "other_columns r = (s_week r, s_tag r, posts r, avg_engagement r)"

text \<open>The key of a summary row, and the key with the post count.\<close>

definition summary_key :: "summary_row \<Rightarrow> string \<times> string" where
  "summary_key s = (s_week s, s_tag s)"

definition key_posts :: "summary_row \<Rightarrow> (string \<times> string) \<times> nat" where
  "key_posts s = (summary_key s, posts s)"


subsection \<open>A date parser that infers one format per column\<close>










subsection \<open>Example inputs\<close>

text \<open>A calendar excerpt standing for the date parser and the ISO week of a day.\<close>

definition calendar :: "(string \<times> string) list" where
  "calendar =
     [(''2024-12-30'', ''2025-W01''), (''2025-01-01'', ''2025-W01''),
      (''2025-01-03'', ''2025-W01''), (''2025-01-05'', ''2025-W01''),
      (''2025-01-06'', ''2025-W02'')]"

definition demo_env :: "bool \<Rightarrow> string env" where
  "demo_env vader =
     \<lparr> HAVE_VADER = vader,
       polarity_compound = (\<lambda>t. if t = [] then 0 else 1 / 2),
       to_datetime = (\<lambda>col c. case c of None \<Rightarrow> None
                        | Some s \<Rightarrow> (if map_of calendar s = None then None else Some s)),
       strftime_GV = (\<lambda>d. case map_of calendar d of None \<Rightarrow> [] | Some w \<Rightarrow> w) \<rparr>"

definition post1 :: post where
  "post1 = \<lparr> post_id = Some ''p1'', date = Some ''2024-12-30'',
             raw_text = Some ''New denim jacket'', likes = Some 10, views = Some 50 \<rparr>"

definition post2 :: post where
  "post2 = \<lparr> post_id = Some ''p2'', date = Some ''2025-01-01'',
             raw_text = Some ''Red #Denim http://t.co/x'', likes = None, views = Some 20 \<rparr>"

definition post3 :: post where
  "post3 = \<lparr> post_id = Some ''p3'', date = Some ''2025-01-03'',
             raw_text = Some ''so RED!'', likes = Some 4, views = None \<rparr>"

definition post4 :: post where
  "post4 = \<lparr> post_id = Some ''p4'', date = Some ''2025-01-05'',
             raw_text = None, likes = Some 1, views = Some 10 \<rparr>"






definition four_posts :: "post list" where
  "four_posts = [post1, post2, post3, post4]"

definition mk_row :: "string \<Rightarrow> string \<Rightarrow> nat \<Rightarrow> summary_row" where
  "mk_row w t n =
     \<lparr> s_week = w, s_tag = t, posts = n, avg_engagement = Some 1, avg_sentiment = None \<rparr>"

definition denim_row :: summary_row where
  "denim_row =
     \<lparr> s_week = ''2025-W01'', s_tag = ''denim'', posts = 2,
       avg_engagement = Some (17 / 2), avg_sentiment = Some (1 / 2) \<rparr>"

text \<open>Four weeks: \<open>blue\<close> has one post in the first week only, \<open>red\<close> five posts in the
  first week and one in each later week.\<close>

definition four_weeks :: "summary_row list" where
  "four_weeks =
     [mk_row ''2025-W01'' ''blue'' 1, mk_row ''2025-W01'' ''red'' 5,
      mk_row ''2025-W02'' ''red'' 1, mk_row ''2025-W03'' ''red'' 1,
      mk_row ''2025-W04'' ''red'' 1]"

section \<open>Properties\<close>

subsection \<open>Basic facts about the stages\<close>

lemma set_sorted_set: "set (sorted_set xs) = set xs"
  by (simp add: sorted_set_def)

lemma distinct_sorted_set: "distinct (sorted_set xs)"
  by (simp add: sorted_set_def)

lemma sorted_sorted_set: "sorted (sorted_set xs)"
  by (simp add: sorted_set_def)

lemma set_keyword_tags: "set (keyword_tags ts) = set ts \<inter> TAG_WORDS"
  by (auto simp: keyword_tags_def set_sorted_set)

lemma set_combine_tags: "set (combine_tags hs kw) = (set hs \<union> set kw) \<inter> TAG_WORDS"
  by (auto simp: combine_tags_def set_sorted_set)

lemma all_tags_derive:
  "all_tags (derive E pd) = combine_tags (hashtags (derive E pd)) (keyword_tags (tokens (derive E pd)))"
  by (simp add: derive_def Let_def)

lemma exploded_concat:
  "exploded df = concat (map (\<lambda>r. map (\<lambda>t. (r, t)) (all_tags r)) df)"
proof (induction df)
  case Nil
  show ?case by (simp add: exploded_def explode_def dropna_all_tags_def)
next
  case (Cons r df)
  have one: "dropna_all_tags (if all_tags r = [] then [(r, None)] else map (\<lambda>t. (r, Some t)) (all_tags r))
        = map (\<lambda>t. (r, t)) (all_tags r)"
    by (induction "all_tags r") (simp_all add: dropna_all_tags_def comp_def map_concat)
  have app: "\<And>xs ys. dropna_all_tags (xs @ ys) = dropna_all_tags xs @ dropna_all_tags ys"
    by (simp add: dropna_all_tags_def)
  from Cons one show ?case
    by (simp add: exploded_def explode_def app)
qed

lemma set_exploded:
  "set (exploded df) = {(r, t). r \<in> set df \<and> t \<in> set (all_tags r)}"
  by (auto simp: exploded_concat)

lemma set_group_keys: "set (group_keys ex) = row_key ` set ex"
  by (simp add: group_keys_def)

lemma distinct_group_keys: "distinct (group_keys ex)"
  by (simp add: group_keys_def)

lemma sorted_group_keys: "sorted (group_keys ex)"
  by (simp add: group_keys_def)

lemma agg_key: "s_week (agg ex k) = fst k" "s_tag (agg ex k) = snd k"
  by (simp_all add: agg_def Let_def)

lemma keys_weekly_summary:
  "map (\<lambda>r. (s_week r, s_tag r)) (weekly_summary df) = group_keys (exploded df)"
  by (simp add: weekly_summary_def Let_def comp_def agg_key map_idI)

lemma weekly_summary_tag:
  assumes "r \<in> set (weekly_summary df)"
  shows "\<exists>p \<in> set df. s_week r = week p \<and> s_tag r \<in> set (all_tags p)"
proof -
  from assms have "(s_week r, s_tag r) \<in> set (map (\<lambda>r. (s_week r, s_tag r)) (weekly_summary df))"
    by force
  then have "(s_week r, s_tag r) \<in> row_key ` set (exploded df)"
    by (simp only: keys_weekly_summary set_group_keys)
  then show ?thesis
    by (auto simp: set_exploded row_key_def)
qed

lemma all_tags_vocab: "set (all_tags (derive E pd)) \<subseteq> TAG_WORDS"
  by (auto simp: derive_def Let_def combine_tags_def sorted_set_def)

lemma normalized_vocab:
  assumes "p \<in> set (normalized E df)"
  shows "set (all_tags p) \<subseteq> TAG_WORDS"
proof -
  from assms obtain pd where "p = derive E pd"
    by (auto simp: normalized_def)
  then show ?thesis by (simp add: all_tags_vocab)
qed

lemma weekly_main: "weekly (main E df) = weekly_summary (normalized E df)"
  by (simp add: main_def Let_def)

lemma rising_main: "rising (main E df) = rising_tags (weekly (main E df))"
  by (simp add: main_def Let_def)

lemma demo_weekly:
  "weekly (main (demo_env True) four_posts) =
     [\<lparr> s_week = ''2025-W01'', s_tag = ''denim'', posts = 2, avg_engagement = Some (17 / 2), avg_sentiment = Some (1 / 2) \<rparr>,
      \<lparr> s_week = ''2025-W01'', s_tag = ''red'', posts = 2, avg_engagement = Some 3, avg_sentiment = Some (1 / 2) \<rparr>]"
  by code_simp

subsection \<open>Engagement scorer\<close>

text \<open>
  C3. The engagement of a post is its likes plus a tenth of its views, a missing value
  counting as 0 (no error arises): likes 10 and views 50 give 15, missing likes and views
  20 give 2, and the engagement is not negative when neither likes nor views are.
  Numbers are real numbers here; the rounding of float64 is not modelled.
\<close>

theorem engagement_formula:
  "engagement (derive E (p, d)) =
     (case likes p of None \<Rightarrow> 0 | Some l \<Rightarrow> l) + 0.1 * (case views p of None \<Rightarrow> 0 | Some v \<Rightarrow> v)
   \<and> engagement_of (Some 10) (Some 50) = 15
   \<and> engagement_of None (Some 20) = 2
   \<and> ((\<forall>l. likes p = Some l \<longrightarrow> 0 \<le> l) \<and> (\<forall>v. views p = Some v \<longrightarrow> 0 \<le> v)
        \<longrightarrow> 0 \<le> engagement (derive E (p, d)))"
  by (auto simp: derive_def Let_def engagement_of_def fillna0_def split: option.splits)

theorem engagement_formula_witness:
  "likes post2 = None \<and> views post2 = Some 20
   \<and> engagement (derive (demo_env True) (post2, ''2025-01-01'')) = 2
   \<and> 0 \<le> engagement (derive (demo_env True) (post2, ''2025-01-01''))"
  using engagement_formula [of "demo_env True" post2 "''2025-01-01''"]
  by (simp add: post2_def)

subsection \<open>Tag extractor\<close>

text \<open>
  C4. For all hashtags and tokens, the tags of a post are the hashtags and the tokens that
  are vocabulary words, cut down to the vocabulary, as a list without repetition in
  ascending lexicographic order; a word outside the vocabulary never gets in, since
  membership is decided by equality with a vocabulary word.
\<close>

theorem tag_extraction:
  "set (combine_tags hs (keyword_tags ts)) = (set hs \<union> {t \<in> set ts. t \<in> TAG_WORDS}) \<inter> TAG_WORDS
   \<and> distinct (combine_tags hs (keyword_tags ts))
   \<and> sorted (combine_tags hs (keyword_tags ts))
   \<and> (t \<notin> TAG_WORDS \<longrightarrow> t \<notin> set (combine_tags hs (keyword_tags ts)))
   \<and> all_tags (derive E pd) = combine_tags (hashtags (derive E pd)) (keyword_tags (tokens (derive E pd)))"
proof -
  have "set (combine_tags hs (keyword_tags ts)) = (set hs \<union> {t \<in> set ts. t \<in> TAG_WORDS}) \<inter> TAG_WORDS"
    by (auto simp: set_combine_tags set_keyword_tags)
  moreover have "distinct (combine_tags hs (keyword_tags ts))"
    by (simp add: combine_tags_def distinct_sorted_set)
  moreover have "sorted (combine_tags hs (keyword_tags ts))"
    by (simp add: combine_tags_def sorted_sorted_set)
  moreover have "t \<notin> TAG_WORDS \<longrightarrow> t \<notin> set (combine_tags hs (keyword_tags ts))"
    by (simp add: set_combine_tags)
  ultimately show ?thesis using all_tags_derive by blast
qed

theorem tag_extraction_witness:
  "''denims'' \<notin> TAG_WORDS \<and> ''denims'' \<notin> set (combine_tags [''denims'', ''red''] (keyword_tags [''den'', ''denim'', ''red'']))
   \<and> combine_tags [''denims'', ''red''] (keyword_tags [''den'', ''denim'', ''red'']) = [''denim'', ''red'']"
proof -
  have a: "''denims'' \<notin> TAG_WORDS"
    by (simp add: TAG_WORDS_def COLOR_WORDS_def STYLE_WORDS_def MOOD_WORDS_def)
  have b: "combine_tags [''denims'', ''red''] (keyword_tags [''den'', ''denim'', ''red'']) = [''denim'', ''red'']"
    by code_simp
  from tag_extraction [of "[''denims'', ''red'']" "[''den'', ''denim'', ''red'']" "''denims''"] a b
  show ?thesis by blast
qed

subsection \<open>Vocabulary closure\<close>

text \<open>
  C8. For every input table, the tag of every row of the weekly summary is one of the
  colour, style and mood words, which are constants.
\<close>

theorem vocabulary_closure:
  "r \<in> set (weekly (main E df)) \<Longrightarrow> s_tag r \<in> set (COLOR_WORDS @ STYLE_WORDS @ MOOD_WORDS)"
proof -
  assume "r \<in> set (weekly (main E df))"
  then obtain p where "p \<in> set (normalized E df)" "s_tag r \<in> set (all_tags p)"
    using weekly_summary_tag unfolding weekly_main by blast
  then have "s_tag r \<in> TAG_WORDS" using normalized_vocab by blast
  then show ?thesis by (simp only: TAG_WORDS_def)
qed

theorem vocabulary_closure_witness:
  "denim_row \<in> set (weekly (main (demo_env True) four_posts))
   \<and> s_tag denim_row \<in> set (COLOR_WORDS @ STYLE_WORDS @ MOOD_WORDS)"
proof -
  have "denim_row \<in> set (weekly (main (demo_env True) four_posts))"
    by (simp add: demo_weekly denim_row_def)
  with vocabulary_closure [of denim_row "demo_env True" four_posts]
  show ?thesis by blast
qed

subsection \<open>Facts about the trend ranker\<close>

lemma keys_posts_sum: "map fst (posts_sum rows) = sort (remdups (map s_tag rows))"
  by (simp add: posts_sum_def comp_def)

lemma map_of_posts_sum:
  "map_of (posts_sum rows) t =
     (if t \<in> s_tag ` set rows then Some (total_posts rows t) else None)"
proof -
  have "map_of (map (\<lambda>k. (k, total_posts rows k)) ks) t =
          (if t \<in> set ks then Some (total_posts rows t) else None)" for ks
    by (induction ks) auto
  from this [of "sort (remdups (map s_tag rows))"] show ?thesis
    by (simp add: posts_sum_def total_posts_def)
qed

lemma keys_series_sub: "map fst (series_sub a b) = sort (remdups (map fst a @ map fst b))"
  by (simp add: series_sub_def comp_def)

lemma keys_fillna_series: "map fst (fillna_series s c) = map fst s"
  by (simp add: fillna_series_def comp_def)

lemma present_filter:
  "map (\<lambda>tv. (fst tv, Some (snd tv))) (present s) = filter (\<lambda>tv. snd tv \<noteq> None) s"
  by (induction s) (auto simp: present_def split: option.splits)

lemma set_sort_values_desc: "set (sort_values_desc s) = set s"
proof -
  have "set (sort_values_desc s) =
          (\<lambda>tv. (fst tv, Some (snd tv))) ` set (present s) \<union> set (missing s)"
    by (simp add: sort_values_desc_def)
  also have "(\<lambda>tv. (fst tv, Some (snd tv))) ` set (present s) = set (filter (\<lambda>tv. snd tv \<noteq> None) s)"
    by (simp only: present_filter [symmetric] set_map)
  finally show ?thesis by (auto simp: missing_def)
qed

lemma length_sort_values_desc: "length (sort_values_desc s) = length s"
proof -
  have "length (sort_values_desc s) = length (present s) + length (missing s)"
    by (simp add: sort_values_desc_def)
  also have "length (present s) = length (filter (\<lambda>tv. snd tv \<noteq> None) s)"
    by (simp only: present_filter [symmetric] length_map)
  finally show ?thesis
    using sum_length_filter_compl [of "\<lambda>tv. snd tv \<noteq> None" s] by (simp add: missing_def)
qed

lemma distinct_keys_sort_values_desc:
  assumes "distinct (map fst s)"
  shows "distinct (map fst (sort_values_desc s))"
proof -
  from assms have d: "distinct s" and i: "inj_on fst (set s)"
    by (simp_all add: distinct_map)
  have "card (set (sort_values_desc s)) = length (sort_values_desc s)"
    using d by (simp add: set_sort_values_desc length_sort_values_desc distinct_card)
  then have "distinct (sort_values_desc s)"
    by (rule card_distinct)
  with i show ?thesis
    by (simp add: distinct_map set_sort_values_desc)
qed

lemma set_keys_sort_values_desc: "set (map fst (sort_values_desc s)) = set (map fst s)"
  by (simp add: set_sort_values_desc)

lemma sorted_sort_values_desc: "sorted_wrt delta_ge (map snd (sort_values_desc s))"
proof -
  let ?p = "rev (sort_key snd (rev (present s)))"
  have "sorted (map snd (sort_key snd (rev (present s))))"
    by (rule sorted_sort_key)
  then have "sorted_wrt (\<lambda>a b. b \<le> a) (rev (map snd (sort_key snd (rev (present s)))))"
    by (simp add: sorted_wrt_rev)
  then have "sorted_wrt (\<lambda>a b. b \<le> a) (map snd ?p)"
    by (simp add: rev_map)
  then have 1: "sorted_wrt delta_ge (map (\<lambda>tv. Some (snd tv)) ?p)"
    by (simp add: sorted_wrt_map delta_ge_def)
  have "sorted_wrt (\<lambda>a b. True) (map snd (missing s))"
    by simp
  then have 2: "sorted_wrt delta_ge (map snd (missing s))"
    by (rule sorted_wrt_mono_rel [rotated]) (auto simp: missing_def delta_ge_def)
  have 3: "\<forall>a \<in> set (map (\<lambda>tv. Some (snd tv)) ?p). \<forall>b \<in> set (map snd (missing s)). delta_ge a b"
    by (auto simp: missing_def delta_ge_def)
  from 1 2 3 show ?thesis
    by (simp add: sort_values_desc_def sorted_wrt_append comp_def)
qed

lemma head5_index_props:
  assumes "distinct (map fst s)"
  shows "distinct (head5_index s)" "length (head5_index s) \<le> 5"
    "set (head5_index s) \<subseteq> set (map fst s)"
proof -
  have eq: "head5_index s = take 5 (map fst s)"
    by (simp add: head5_index_def take_map)
  show "distinct (head5_index s)" using assms by (simp add: eq)
  show "length (head5_index s) \<le> 5" by (simp add: eq)
  show "set (head5_index s) \<subseteq> set (map fst s)" unfolding eq by (rule set_take_subset)
qed

lemma delta_series_unfold:
  "delta_series w =
     sort_values_desc (fillna_series
       (series_sub (posts_sum (isin_weeks w (recent_weeks w))) (posts_sum (isin_weeks w (prior_weeks w))))
       (posts_sum (isin_weeks w (recent_weeks w))))"
  by (simp add: delta_series_def Let_def recent_weeks_def prior_weeks_def)

lemma keys_unsorted_delta:
  "map fst (fillna_series
       (series_sub (posts_sum (isin_weeks w (recent_weeks w))) (posts_sum (isin_weeks w (prior_weeks w))))
       (posts_sum (isin_weeks w (recent_weeks w))))
   = sort (remdups (map s_tag (isin_weeks w (recent_weeks w)) @ map s_tag (isin_weeks w (prior_weeks w))))"
proof -
  have "set (sort (remdups a) @ sort (remdups b)) = set (a @ b)" for a b :: "string list"
    by simp
  then have "sort (remdups (sort (remdups a) @ sort (remdups b))) = sort (remdups (a @ b))"
    for a b :: "string list"
    by (intro sorted_distinct_set_unique) (simp_all del: set_append)
  then show ?thesis
    by (simp only: keys_fillna_series keys_series_sub keys_posts_sum)
qed

lemma set_keys_delta_series:
  "set (map fst (delta_series w)) = tags_in (recent_weeks w) w \<union> tags_in (prior_weeks w) w"
  by (simp only: delta_series_unfold set_keys_sort_values_desc keys_unsorted_delta)
     (simp add: tags_in_def)

lemma distinct_keys_delta_series: "distinct (map fst (delta_series w))"
  by (simp only: delta_series_unfold, rule distinct_keys_sort_values_desc)
     (simp only: keys_unsorted_delta, simp)

lemma rising_tags_eq: "rising_tags w = head5_index (delta_series w)"
  by (simp add: rising_tags_def rising_try_def)

lemma tags_in_subset: "tags_in ws w \<subseteq> s_tag ` set w"
  by (auto simp: tags_in_def isin_weeks_def)

lemma keys_fallback_series:
  "map fst (map (\<lambda>tv. (fst tv, Some (snd tv))) (posts_sum w)) = sort (remdups (map s_tag w))"
  by (simp add: comp_def keys_posts_sum [simplified comp_def])

lemma rising_tags_props:
  "set (rising_tags w) \<subseteq> s_tag ` set w" "length (rising_tags w) \<le> 5" "distinct (rising_tags w)"
proof -
  note h = head5_index_props [OF distinct_keys_delta_series [of w]]
  from h(3) set_keys_delta_series [of w] tags_in_subset
  show "set (rising_tags w) \<subseteq> s_tag ` set w"
    unfolding rising_tags_eq by blast
  from h(2) show "length (rising_tags w) \<le> 5" by (simp only: rising_tags_eq)
  from h(1) show "distinct (rising_tags w)" by (simp only: rising_tags_eq)
qed

lemma rising_fallback_props:
  "set (rising_fallback w) \<subseteq> s_tag ` set w" "length (rising_fallback w) \<le> 5"
  "distinct (rising_fallback w)"
proof -
  let ?S = "map (\<lambda>tv. (fst tv, Some (snd tv))) (posts_sum w)"
  have d: "distinct (map fst (sort_values_desc ?S))"
    by (rule distinct_keys_sort_values_desc) (simp only: keys_fallback_series, simp)
  have s: "set (map fst (sort_values_desc ?S)) = s_tag ` set w"
    by (simp only: set_keys_sort_values_desc keys_fallback_series) simp
  note h = head5_index_props [OF d]
  from h(3) s show "set (rising_fallback w) \<subseteq> s_tag ` set w"
    unfolding rising_fallback_def by blast
  from h(2) show "length (rising_fallback w) \<le> 5" by (simp only: rising_fallback_def)
  from h(1) show "distinct (rising_fallback w)" by (simp only: rising_fallback_def)
qed

lemma total_posts_absent: "t \<notin> s_tag ` set rows \<Longrightarrow> total_posts rows t = 0"
proof -
  assume "t \<notin> s_tag ` set rows"
  then have "filter (\<lambda>r. s_tag r = t) rows = []"
    by (auto simp: filter_empty_conv)
  then show ?thesis by (simp add: total_posts_def)
qed

lemma posts_in_total: "posts_in ws w t = total_posts (isin_weeks w ws) t"
  by (simp add: posts_in_def total_posts_def)

text \<open>The entries of the series before sorting.\<close>

lemma unsorted_delta_entry:
  assumes "(t, v) \<in> set (fillna_series (series_sub a b) a)"
  shows "v = (case map_of a t of None \<Rightarrow> None
              | Some x \<Rightarrow> (case map_of b t of None \<Rightarrow> Some x | Some y \<Rightarrow> Some (x - y)))"
  using assms
  by (auto simp: fillna_series_def series_sub_def split: option.splits)

lemma delta_series_entry:
  assumes "(t, v) \<in> set (delta_series w)"
  shows "v = (if t \<in> tags_in (recent_weeks w) w
              then Some (recent_posts w t - prior_posts w t) else None)"
proof -
  let ?a = "posts_sum (isin_weeks w (recent_weeks w))"
  let ?b = "posts_sum (isin_weeks w (prior_weeks w))"
  from assms have "(t, v) \<in> set (fillna_series (series_sub ?a ?b) ?a)"
    by (simp only: delta_series_unfold set_sort_values_desc)
  then have v: "v = (case map_of ?a t of None \<Rightarrow> None
              | Some x \<Rightarrow> (case map_of ?b t of None \<Rightarrow> Some x | Some y \<Rightarrow> Some (x - y)))"
    by (rule unsorted_delta_entry)
  show ?thesis
  proof (cases "t \<in> tags_in (recent_weeks w) w")
    case False
    then show ?thesis using v by (simp add: map_of_posts_sum tags_in_def)
  next
    case True
    show ?thesis
    proof (cases "t \<in> tags_in (prior_weeks w) w")
      case True
      with \<open>t \<in> tags_in (recent_weeks w) w\<close> v show ?thesis
        by (simp add: map_of_posts_sum tags_in_def recent_posts_def prior_posts_def posts_in_total)
    next
      case False
      then have "prior_posts w t = 0"
        by (simp add: prior_posts_def posts_in_total total_posts_absent tags_in_def)
      with False \<open>t \<in> tags_in (recent_weeks w) w\<close> v show ?thesis
        by (simp add: map_of_posts_sum tags_in_def recent_posts_def posts_in_total)
    qed
  qed
qed

text \<open>Fewer than two weeks: every week is recent, none is prior.\<close>

lemma short_history:
  assumes "length (weeks_sorted w) < 2"
  shows "isin_weeks w (recent_weeks w) = w" "isin_weeks w (prior_weeks w) = []"
proof -
  from assms have r: "recent_weeks w = weeks_sorted w" and p: "prior_weeks w = []"
    by (simp_all add: recent_weeks_def prior_weeks_def recent_of_def prior_of_def)
  show "isin_weeks w (recent_weeks w) = w"
    by (simp add: r isin_weeks_def weeks_sorted_def)
  show "isin_weeks w (prior_weeks w) = []"
    by (simp add: p isin_weeks_def)
qed

lemma fillna_sub_empty:
  assumes "distinct (map fst a)" "sorted (map fst a)"
  shows "fillna_series (series_sub a []) a = map (\<lambda>tv. (fst tv, Some (snd tv))) a"
proof -
  from assms have k: "sort (remdups (map fst a)) = map fst a"
    by (simp add: distinct_remdups_id sorted_sort_id)
  have "fillna_series (series_sub a []) a = map (\<lambda>t. (t, map_of a t)) (sort (remdups (map fst a)))"
    by (simp add: fillna_series_def series_sub_def comp_def split: option.splits)
  also have "\<dots> = map (\<lambda>tv. (fst tv, map_of a (fst tv))) a"
    by (simp only: k) (simp add: comp_def)
  also have "\<dots> = map (\<lambda>tv. (fst tv, Some (snd tv))) a"
    using assms(1) by (intro map_cong) auto
  finally show ?thesis .
qed

lemma short_history_delta:
  assumes "length (weeks_sorted w) < 2"
  shows "delta_series w = sort_values_desc (map (\<lambda>tv. (fst tv, Some (snd tv))) (posts_sum w))"
proof -
  have "distinct (map fst (posts_sum w))" "sorted (map fst (posts_sum w))"
    by (simp_all only: keys_posts_sum) simp_all
  then have "fillna_series (series_sub (posts_sum w) []) (posts_sum w)
        = map (\<lambda>tv. (fst tv, Some (snd tv))) (posts_sum w)"
    by (rule fillna_sub_empty)
  moreover have "posts_sum [] = []" by (simp add: posts_sum_def)
  ultimately show ?thesis
    by (simp add: delta_series_unfold short_history [OF assms])
qed

lemma short_history_rising:
  "length (weeks_sorted w) < 2 \<Longrightarrow> rising_tags w = rising_fallback w"
  by (simp add: rising_tags_eq rising_fallback_def short_history_delta)

text \<open>Taking the first \<open>n\<close> of a ranking of all candidates gives the top \<open>n\<close>.\<close>

lemma top_ranked_take:
  assumes "distinct L" "set L = C" "ranked_desc score L"
  shows "top_ranked n score C (take n L)"
proof -
  have L: "L = take n L @ drop n L" by simp
  have "sorted_wrt (\<lambda>a b. score b \<le> score a) (take n L @ drop n L)"
    using assms(3) by (simp add: ranked_desc_def)
  then have s1: "sorted_wrt (\<lambda>a b. score b \<le> score a) (take n L)"
    and cross: "\<forall>u \<in> set (take n L). \<forall>t \<in> set (drop n L). score t \<le> score u"
    unfolding sorted_wrt_append by blast+
  have "set L = set (take n L) \<union> set (drop n L)"
    by (metis L set_append)
  then have rest: "C - set (take n L) \<subseteq> set (drop n L)"
    using assms(2) by blast
  have "length (take n L) = min n (card C)"
    using assms(1,2) distinct_card [of L] by (simp add: min.commute)
  moreover have "distinct (take n L)" using assms(1) by simp
  moreover have "set (take n L) \<subseteq> C" using assms(2) set_take_subset by fast
  ultimately show ?thesis
    using s1 cross rest unfolding top_ranked_def ranked_desc_def by blast
qed

lemma fallback_ranked:
  "ranked_desc (total_posts w)
     (map fst (sort_values_desc (map (\<lambda>tv. (fst tv, Some (snd tv))) (posts_sum w))))"
proof -
  let ?S = "map (\<lambda>tv. (fst tv, Some (snd tv))) (posts_sum w)"
  have val: "snd x = Some (total_posts w (fst x))" if "x \<in> set (sort_values_desc ?S)" for x
    using that by (auto simp: set_sort_values_desc posts_sum_def total_posts_def)
  have "sorted_wrt (\<lambda>x y. delta_ge (snd x) (snd y)) (sort_values_desc ?S)"
    using sorted_sort_values_desc [of ?S] by (simp add: sorted_wrt_map)
  then have "sorted_wrt (\<lambda>x y. total_posts w (fst y) \<le> total_posts w (fst x)) (sort_values_desc ?S)"
    by (rule sorted_wrt_mono_rel [rotated]) (simp add: val delta_ge_def)
  then show ?thesis
    by (simp add: ranked_desc_def sorted_wrt_map)
qed

lemma fallback_top_ranked: "top_ranked 5 (total_posts w) (s_tag ` set w) (rising_fallback w)"
proof -
  let ?L = "map fst (sort_values_desc (map (\<lambda>tv. (fst tv, Some (snd tv))) (posts_sum w)))"
  have d: "distinct ?L"
    by (rule distinct_keys_sort_values_desc) (simp only: keys_fallback_series, simp)
  have s: "set ?L = s_tag ` set w"
    by (simp only: set_keys_sort_values_desc keys_fallback_series) simp
  have "top_ranked 5 (total_posts w) (s_tag ` set w) (take 5 ?L)"
    using d s fallback_ranked by (rule top_ranked_take)
  then show ?thesis by (simp add: rising_fallback_def head5_index_def take_map)
qed

lemma tags_weekly_summary:
  "s_tag ` set (weekly_summary df) = (\<Union>r \<in> set df. set (all_tags r))"
proof -
  have "s_tag ` set (weekly_summary df) = snd ` set (map (\<lambda>r. (s_week r, s_tag r)) (weekly_summary df))"
    by force
  also have "\<dots> = snd ` row_key ` set (exploded df)"
    by (simp only: keys_weekly_summary set_group_keys)
  also have "\<dots> = (\<Union>r \<in> set df. set (all_tags r))"
    by (force simp: set_exploded row_key_def)
  finally show ?thesis .
qed

lemma weeks_weekly_summary: "s_week ` set (weekly_summary df) \<subseteq> week ` set df"
  using weekly_summary_tag by fastforce

lemma length_weeks_sorted: "length (weeks_sorted w) = card (s_week ` set w)"
  by (simp add: weeks_sorted_def length_remdups_card_conv)

lemma demo_weeks:
  "map week (normalized (demo_env True) four_posts) =
     [''2025-W01'', ''2025-W01'', ''2025-W01'', ''2025-W01'']"
  by code_simp

lemma demo_rising: "rising (main (demo_env True) four_posts) = [''denim'', ''red'']"
  by code_simp

lemma demo_tags:
  "map all_tags (normalized (demo_env True) four_posts) = [[''denim''], [''denim'', ''red''], [''red''], []]"
  by code_simp

subsection \<open>Rising-list membership\<close>

text \<open>
  C10. For every input table, every tag of the rising list is the tag of some row of the
  weekly summary, the list has at most 5 entries and none twice; the same holds for the
  list of the fallback ranking.
\<close>

theorem rising_membership:
  "set (rising (main E df)) \<subseteq> s_tag ` set (weekly (main E df))
   \<and> length (rising (main E df)) \<le> 5
   \<and> distinct (rising (main E df))
   \<and> set (rising_fallback (weekly (main E df))) \<subseteq> s_tag ` set (weekly (main E df))
   \<and> length (rising_fallback (weekly (main E df))) \<le> 5
   \<and> distinct (rising_fallback (weekly (main E df)))"
  unfolding rising_main
  using rising_tags_props [of "weekly (main E df)"] rising_fallback_props [of "weekly (main E df)"]
  by blast

subsection \<open>Rising tags with less than two weeks of data\<close>

text \<open>
  C6. When the surviving posts lie in fewer than 2 distinct weeks, the rising list is the
  list of the fallback ranking: the top 5 tags by total post count over all weeks, best
  first. The list is computed without an error (by the main ranking, which coincides
  with the fallback here), and it is not empty when some post has a tag.
\<close>

theorem rising_short_history:
  assumes "card (week ` set (normalized E df)) < 2"
  shows "rising (main E df) = rising_fallback (weekly (main E df))
     \<and> top_ranked 5 (total_posts (weekly (main E df))) (s_tag ` set (weekly (main E df)))
          (rising (main E df))
     \<and> ((\<exists>r \<in> set (normalized E df). all_tags r \<noteq> []) \<longrightarrow> rising (main E df) \<noteq> [])"
proof -
  let ?w = "weekly (main E df)"
  have "card (s_week ` set ?w) \<le> card (week ` set (normalized E df))"
    unfolding weekly_main by (rule card_mono) (simp_all add: weeks_weekly_summary)
  with assms have short: "length (weeks_sorted ?w) < 2"
    by (simp add: length_weeks_sorted)
  then have eq: "rising (main E df) = rising_fallback ?w"
    unfolding rising_main by (rule short_history_rising)
  have top: "top_ranked 5 (total_posts ?w) (s_tag ` set ?w) (rising (main E df))"
    unfolding eq by (rule fallback_top_ranked)
  have "rising (main E df) \<noteq> []" if "\<exists>r \<in> set (normalized E df). all_tags r \<noteq> []"
  proof -
    from that have "s_tag ` set ?w \<noteq> {}"
      unfolding weekly_main tags_weekly_summary by auto
    then have "0 < card (s_tag ` set ?w)"
      by (simp add: card_gt_0_iff)
    moreover from top have "length (rising (main E df)) = min 5 (card (s_tag ` set ?w))"
      by (simp add: top_ranked_def)
    ultimately show ?thesis by auto
  qed
  with eq top show ?thesis by blast
qed

theorem rising_short_history_witness:
  "card (week ` set (normalized (demo_env True) four_posts)) = 1
   \<and> rising (main (demo_env True) four_posts) = [''denim'', ''red'']
   \<and> rising_fallback (weekly (main (demo_env True) four_posts)) = [''denim'', ''red'']
   \<and> top_ranked 5 (total_posts (weekly (main (demo_env True) four_posts)))
        (s_tag ` set (weekly (main (demo_env True) four_posts))) [''denim'', ''red'']"
proof -
  have "week ` set (normalized (demo_env True) four_posts)
          = set (map week (normalized (demo_env True) four_posts))"
    by simp
  then have c: "card (week ` set (normalized (demo_env True) four_posts)) = 1"
    by (simp only: demo_weeks) simp
  then have "card (week ` set (normalized (demo_env True) four_posts)) < 2"
    by simp
  from rising_short_history [OF this]
  have a: "rising (main (demo_env True) four_posts)
             = rising_fallback (weekly (main (demo_env True) four_posts))"
    and b: "top_ranked 5 (total_posts (weekly (main (demo_env True) four_posts)))
             (s_tag ` set (weekly (main (demo_env True) four_posts)))
             (rising (main (demo_env True) four_posts))"
    by blast+
  from a have "rising_fallback (weekly (main (demo_env True) four_posts)) = [''denim'', ''red'']"
    by (simp only: demo_rising)
  moreover from b have "top_ranked 5 (total_posts (weekly (main (demo_env True) four_posts)))
        (s_tag ` set (weekly (main (demo_env True) four_posts))) [''denim'', ''red'']"
    by (simp only: demo_rising)
  ultimately show ?thesis using c demo_rising by blast
qed

subsection \<open>Sentiment switch\<close>

lemma dropna_date_vader: "dropna_date (E\<lparr>HAVE_VADER := b\<rparr>) df = dropna_date E df"
  by (simp add: dropna_date_def)

lemma derive_vader_off:
  "derive (E\<lparr>HAVE_VADER := False\<rparr>) pd = (derive E pd)\<lparr>sentiment := None\<rparr>"
  by (simp add: derive_def Let_def add_sentiment_def safe_week_def)

lemma normalized_vader_off:
  "normalized (E\<lparr>HAVE_VADER := False\<rparr>) df = map (\<lambda>r. r\<lparr>sentiment := None\<rparr>) (normalized E df)"
  by (simp add: normalized_def dropna_date_vader derive_vader_off)

lemma exploded_map:
  assumes "\<And>r. all_tags (f r) = all_tags r"
  shows "exploded (map f df) = map (\<lambda>rt. (f (fst rt), snd rt)) (exploded df)"
  by (simp add: exploded_concat map_concat comp_def assms)

lemma group_keys_map:
  assumes "\<And>r. week (f r) = week r"
  shows "group_keys (map (\<lambda>rt. (f (fst rt), snd rt)) ex) = group_keys ex"
proof -
  have "map row_key (map (\<lambda>rt. (f (fst rt), snd rt)) ex) = map row_key ex"
    by (simp add: row_key_def assms)
  then show ?thesis by (simp only: group_keys_def)
qed

lemma group_of_map:
  assumes "\<And>r. week (f r) = week r"
  shows "map fst (group_of (map (\<lambda>rt. (f (fst rt), snd rt)) ex) k) = map f (map fst (group_of ex k))"
  by (simp add: group_of_def filter_map comp_def row_key_def assms)

lemma agg_sentiment_off:
  "agg (map (\<lambda>rt. ((fst rt)\<lparr>sentiment := None\<rparr>, snd rt)) ex) k = (agg ex k)\<lparr>avg_sentiment := None\<rparr>"
proof -
  have g: "map fst (group_of (map (\<lambda>rt. ((fst rt)\<lparr>sentiment := None\<rparr>, snd rt)) ex) k)
         = map (\<lambda>r. r\<lparr>sentiment := None\<rparr>) (map fst (group_of ex k))"
    by (rule group_of_map) simp
  have n: "notna_values (map (\<lambda>x. None) xs) = []" for xs :: "'b list"
    by (induction xs) (simp_all add: notna_values_def)
  show ?thesis
    unfolding agg_def Let_def g
    by (simp add: comp_def n mean_def)
qed

lemma weekly_summary_sentiment_off:
  "weekly_summary (map (\<lambda>r. r\<lparr>sentiment := None\<rparr>) df)
     = map (\<lambda>r. r\<lparr>avg_sentiment := None\<rparr>) (weekly_summary df)"
proof -
  have e: "exploded (map (\<lambda>r. r\<lparr>sentiment := None\<rparr>) df)
        = map (\<lambda>rt. ((fst rt)\<lparr>sentiment := None\<rparr>, snd rt)) (exploded df)"
    by (rule exploded_map) simp
  have k: "group_keys (map (\<lambda>rt. ((fst rt)\<lparr>sentiment := None\<rparr>, snd rt)) (exploded df))
        = group_keys (exploded df)"
    by (rule group_keys_map) simp
  show ?thesis
    unfolding weekly_summary_def Let_def e k
    by (simp add: agg_sentiment_off)
qed

text \<open>
  C9. For every input table, the summary of a run without the sentiment analyzer is the
  summary of the run with it, with every \<open>avg_sentiment\<close> replaced by the missing
  value: all \<open>avg_sentiment\<close> cells are missing, and the columns week, tag, posts and
  \<open>avg_engagement\<close> agree row for row.
\<close>

theorem sentiment_noninterference:
  "weekly (main (E\<lparr>HAVE_VADER := False\<rparr>) df)
     = map (\<lambda>r. r\<lparr>avg_sentiment := None\<rparr>) (weekly (main (E\<lparr>HAVE_VADER := True\<rparr>) df))
   \<and> set (map avg_sentiment (weekly (main (E\<lparr>HAVE_VADER := False\<rparr>) df))) \<subseteq> {None}
   \<and> map other_columns (weekly (main (E\<lparr>HAVE_VADER := False\<rparr>) df))
       = map other_columns (weekly (main (E\<lparr>HAVE_VADER := True\<rparr>) df))"
proof -
  have "normalized (E\<lparr>HAVE_VADER := False\<rparr>) df
      = map (\<lambda>r. r\<lparr>sentiment := None\<rparr>) (normalized (E\<lparr>HAVE_VADER := True\<rparr>) df)"
    using normalized_vader_off [of "E\<lparr>HAVE_VADER := True\<rparr>" df] by simp
  then have eq: "weekly (main (E\<lparr>HAVE_VADER := False\<rparr>) df)
     = map (\<lambda>r. r\<lparr>avg_sentiment := None\<rparr>) (weekly (main (E\<lparr>HAVE_VADER := True\<rparr>) df))"
    by (simp only: weekly_main weekly_summary_sentiment_off)
  have "set (map avg_sentiment (map (\<lambda>r. r\<lparr>avg_sentiment := None\<rparr>) w)) \<subseteq> {None}"
    for w :: "summary_row list"
    by auto
  moreover have "map other_columns (map (\<lambda>r. r\<lparr>avg_sentiment := None\<rparr>) w) = map other_columns w"
    for w :: "summary_row list"
    by (simp add: other_columns_def)
  ultimately show ?thesis unfolding eq by blast
qed

subsection \<open>Posts without text\<close>

lemma nan_text:
  "lower (clean_text (Some ''nan'')) = ''nan''"
  "findall_az ''nan'' = [''nan'']"
  "extract_hashtags (Some ''nan'') = []"
  by (simp_all add: clean_text_def url_match_def starts_with_def strip_def is_space_def
      lower_def lower_char_def is_AZ_def is_az_def extract_hashtags_def)

lemma derive_columns:
  "text_clean (derive E pd) = lower (clean_text (Some (astype_str (raw_text (fst pd)))))"
  "tokens (derive E pd) = findall_az (text_clean (derive E pd))"
  "hashtags (derive E pd) = extract_hashtags (Some (text_clean (derive E pd)))"
  by (simp_all add: derive_def Let_def)

lemma nan_tags: "combine_tags [] (keyword_tags [''nan'']) = []"
  by (simp add: combine_tags_def keyword_tags_def sorted_set_def TAG_WORDS_def
      COLOR_WORDS_def STYLE_WORDS_def MOOD_WORDS_def)

text \<open>
  C5. What the script does with a post whose text is missing: \<open>astype(str)\<close> has
  already turned the missing cell into the string \<open>nan\<close> when \<open>clean_text\<close> runs,
  so the cleaned text is \<open>nan\<close> and the only token is \<open>nan\<close>; there is no hashtag
  and no tag. \<open>clean_text\<close> itself maps a missing input to the empty string.
\<close>

theorem absent_text_is_nan:
  "raw_text p = None \<Longrightarrow>
     text_clean (derive E (p, d)) = ''nan'' \<and> tokens (derive E (p, d)) = [''nan'']
     \<and> hashtags (derive E (p, d)) = [] \<and> all_tags (derive E (p, d)) = []
     \<and> clean_text None = []"
proof -
  assume a: "raw_text p = None"
  have tc: "text_clean (derive E (p, d)) = ''nan''"
    by (simp only: derive_columns fst_conv a astype_str_def option.case nan_text)
  have tk: "tokens (derive E (p, d)) = [''nan'']"
    by (simp only: derive_columns(2) tc nan_text)
  have hs: "hashtags (derive E (p, d)) = []"
    by (simp only: derive_columns(3) tc nan_text)
  have "all_tags (derive E (p, d)) = []"
    by (simp only: all_tags_derive tk hs nan_tags)
  moreover have "clean_text None = []"
    by (simp add: clean_text_def strip_def)
  ultimately show ?thesis using tc tk hs by blast
qed

theorem absent_text_is_nan_witness:
  "raw_text post4 = None
   \<and> text_clean (derive (demo_env True) (post4, ''2025-01-05'')) = ''nan''
   \<and> tokens (derive (demo_env True) (post4, ''2025-01-05'')) = [''nan'']
   \<and> hashtags (derive (demo_env True) (post4, ''2025-01-05'')) = []
   \<and> all_tags (derive (demo_env True) (post4, ''2025-01-05'')) = []"
proof -
  have n: "raw_text post4 = None" by (simp add: post4_def)
  from absent_text_is_nan [OF n, of "demo_env True" "''2025-01-05''"] n
  show ?thesis by blast
qed

subsection \<open>Date filtering\<close>


lemma src_derive: "src (derive E pd) = fst pd"
  by (simp add: derive_def Let_def)


















subsection \<open>Weekly aggregation\<close>

lemma group_of_append: "group_of (xs @ ys) k = group_of xs k @ group_of ys k"
  by (simp add: group_of_def)

lemma group_of_one_post:
  assumes "distinct ts"
  shows "map fst (group_of (map (\<lambda>t. (r, t)) ts) k)
          = (if week r = fst k \<and> snd k \<in> set ts then [r] else [])"
  using assms
proof (induction ts)
  case Nil
  show ?case by (simp add: group_of_def)
next
  case (Cons t ts)
  then have IH: "map fst (group_of (map (\<lambda>t. (r, t)) ts) k)
          = (if week r = fst k \<and> snd k \<in> set ts then [r] else [])"
    by simp
  have "group_of (map (\<lambda>t. (r, t)) (t # ts)) k
      = (if (week r, t) = k then [(r, t)] else []) @ group_of (map (\<lambda>t. (r, t)) ts) k"
    by (simp add: group_of_def row_key_def)
  with IH Cons.prems show ?case
    by (cases k) auto
qed

lemma exploded_Cons: "exploded (r # df) = map (\<lambda>t. (r, t)) (all_tags r) @ exploded df"
  by (simp add: exploded_concat)

lemma group_tagged:
  assumes "\<forall>r \<in> set df. distinct (all_tags r)"
  shows "map fst (group_of (exploded df) k) = tagged_in df k"
  using assms
proof (induction df)
  case Nil
  show ?case by (simp add: exploded_concat group_of_def tagged_in_def)
next
  case (Cons r df)
  then have "map fst (group_of (exploded df) k) = tagged_in df k" by simp
  moreover from Cons.prems have "distinct (all_tags r)" by simp
  ultimately show ?case
    by (simp add: exploded_Cons group_of_append group_of_one_post tagged_in_def)
qed

lemma distinct_all_tags: "r \<in> set (normalized E df) \<Longrightarrow> distinct (all_tags r)"
  by (auto simp: normalized_def derive_def Let_def combine_tags_def sorted_set_def)

lemma summary_keys: "map summary_key (weekly_summary df) = group_keys (exploded df)"
  using keys_weekly_summary [of df] by (simp add: summary_key_def [abs_def])

lemma weekly_summary_row:
  assumes "s \<in> set (weekly_summary df)"
  shows "s = agg (exploded df) (summary_key s)"
proof -
  from assms obtain k where "s = agg (exploded df) k"
    by (auto simp: weekly_summary_def Let_def)
  then show ?thesis by (simp add: summary_key_def agg_key)
qed

lemma tagged_in_nonempty:
  assumes "s \<in> set (weekly_summary df)"
  shows "tagged_in df (summary_key s) \<noteq> []"
proof -
  from weekly_summary_tag [OF assms] obtain p
    where "p \<in> set df" "s_week s = week p" "s_tag s \<in> set (all_tags p)" by blast
  then have "p \<in> set (tagged_in df (summary_key s))"
    by (simp add: tagged_in_def summary_key_def)
  then show ?thesis by auto
qed

lemma agg_columns:
  "posts (agg ex k) = count_notna (map (\<lambda>r. post_id (src r)) (map fst (group_of ex k)))"
  "avg_engagement (agg ex k) = mean (map engagement (map fst (group_of ex k)))"
  "avg_sentiment (agg ex k) = mean (notna_values (map sentiment (map fst (group_of ex k))))"
  by (simp_all add: agg_def Let_def)

lemma count_notna_filter:
  "count_notna (map (\<lambda>r. post_id (src r)) g) = length (filter (\<lambda>r. post_id (src r) \<noteq> None) g)"
  by (induction g) (simp_all add: count_notna_def)

lemma set_summary_keys:
  "set (map summary_key (weekly_summary df))
     = {(week r, t) |r t. r \<in> set df \<and> t \<in> set (all_tags r)}"
  by (simp only: summary_keys set_group_keys) (force simp: set_exploded row_key_def)

lemma demo_key_posts:
  "map key_posts (weekly (main (demo_env True) four_posts))
     = [((''2025-W01'', ''denim''), 2), ((''2025-W01'', ''red''), 2)]"
  by (simp add: demo_weekly key_posts_def summary_key_def)

lemma demo_survivors:
  "dropna_date (demo_env True) four_posts
     = [(post1, ''2024-12-30''), (post2, ''2025-01-01''), (post3, ''2025-01-03''), (post4, ''2025-01-05'')]"
  by (simp add: dropna_date_def demo_env_def four_posts_def post1_def post2_def post3_def
      post4_def calendar_def)

lemma demo_src: "map src (normalized (demo_env True) four_posts) = four_posts"
proof -
  have "map src (normalized (demo_env True) four_posts)
      = map fst (dropna_date (demo_env True) four_posts)"
    by (simp add: normalized_def comp_def src_derive)
  also have "\<dots> = four_posts"
    by (simp only: demo_survivors) (simp add: four_posts_def)
  finally show ?thesis .
qed

lemma demo_ids: "\<forall>r \<in> set (normalized (demo_env True) four_posts). post_id (src r) \<noteq> None"
proof
  fix r assume "r \<in> set (normalized (demo_env True) four_posts)"
  then have "src r \<in> set (map src (normalized (demo_env True) four_posts))" by simp
  then show "post_id (src r) \<noteq> None"
    by (simp only: demo_src) (auto simp: four_posts_def post1_def post2_def post3_def post4_def)
qed

lemma demo_group_ids:
  "map (\<lambda>r. post_id (src r))
     (tagged_in (normalized (demo_env True) four_posts) (summary_key denim_row))
   = [Some ''p1'', Some ''p2'']"
  by code_simp

text \<open>
  C1. For every input table whose surviving posts all have a \<open>post_id\<close> (the identifier
  of the data model): the explosion holds one row per post and tag of the post (no tag of
  a post is repeated, a post without tags has no row); the summary has exactly one row
  per (week, tag) pair that occurs; and for each row, with its group being the posts of
  that week that carry that tag, \<open>posts\<close> is the number of exploded rows of the group,
  \<open>avg_engagement\<close> is the mean engagement of the group and \<open>avg_sentiment\<close> the
  mean of the sentiment values present in the group, missing if there are none. For the
  four posts with tags denim; denim, red; red; none in week 2025-W01 the summary has the
  rows denim with 2 posts and red with 2 posts and no other row.
\<close>

theorem weekly_aggregation:
  assumes "\<forall>r \<in> set (normalized E df). post_id (src r) \<noteq> None"
  shows "exploded (normalized E df)
     = concat (map (\<lambda>r. map (\<lambda>t. (r, t)) (all_tags r)) (normalized E df))
   \<and> (r \<in> set (normalized E df) \<longrightarrow> distinct (all_tags r))
   \<and> distinct (map summary_key (weekly (main E df)))
   \<and> set (map summary_key (weekly (main E df)))
       = {(week r, t) |r t. r \<in> set (normalized E df) \<and> t \<in> set (all_tags r)}
   \<and> (s \<in> set (weekly (main E df)) \<longrightarrow>
        (let g = tagged_in (normalized E df) (summary_key s);
             vs = notna_values (map sentiment g)
         in map fst (group_of (exploded (normalized E df)) (summary_key s)) = g
            \<and> g \<noteq> []
            \<and> posts s = length (group_of (exploded (normalized E df)) (summary_key s))
            \<and> avg_engagement s = Some (sum_list (map engagement g) / real (length g))
            \<and> avg_sentiment s
                = (if vs = [] then None else Some (sum_list vs / real (length vs)))))
   \<and> map all_tags (normalized (demo_env True) four_posts)
       = [[''denim''], [''denim'', ''red''], [''red''], []]
   \<and> map key_posts (weekly (main (demo_env True) four_posts))
       = [((''2025-W01'', ''denim''), 2), ((''2025-W01'', ''red''), 2)]"
proof -
  let ?n = "normalized E df"
  have d: "\<forall>r \<in> set ?n. distinct (all_tags r)"
    using distinct_all_tags by blast
  have row: "(let g = tagged_in ?n (summary_key s);
             vs = notna_values (map sentiment g)
         in map fst (group_of (exploded ?n) (summary_key s)) = g
            \<and> g \<noteq> []
            \<and> posts s = length (group_of (exploded ?n) (summary_key s))
            \<and> avg_engagement s = Some (sum_list (map engagement g) / real (length g))
            \<and> avg_sentiment s
                = (if vs = [] then None else Some (sum_list vs / real (length vs))))"
    if "s \<in> set (weekly (main E df))"
  proof -
    let ?g = "tagged_in ?n (summary_key s)"
    from that have m: "s \<in> set (weekly_summary ?n)" by (simp only: weekly_main)
    have g: "map fst (group_of (exploded ?n) (summary_key s)) = ?g"
      using d by (rule group_tagged)
    have ne: "?g \<noteq> []" using m by (rule tagged_in_nonempty)
    have s: "s = agg (exploded ?n) (summary_key s)"
      using m by (rule weekly_summary_row)
    have "set ?g \<subseteq> set ?n" by (auto simp: tagged_in_def)
    with assms have "filter (\<lambda>r. post_id (src r) \<noteq> None) ?g = ?g"
      by (auto simp: filter_id_conv)
    moreover have "posts s = length (filter (\<lambda>r. post_id (src r) \<noteq> None) ?g)"
      by (subst s) (simp only: agg_columns g count_notna_filter)
    ultimately have "posts s = length ?g" by simp
    also have "\<dots> = length (group_of (exploded ?n) (summary_key s))"
      by (simp only: g [symmetric] length_map)
    finally have p: "posts s = length (group_of (exploded ?n) (summary_key s))" .
    have e: "avg_engagement s = Some (sum_list (map engagement ?g) / real (length ?g))"
      by (subst s) (simp add: agg_columns g mean_def ne)
    have v: "avg_sentiment s = mean (notna_values (map sentiment ?g))"
      by (subst s) (simp only: agg_columns g)
    from g ne p e v show ?thesis
      by (simp add: Let_def mean_def)
  qed
  have "distinct (map summary_key (weekly (main E df)))"
    by (simp only: weekly_main summary_keys distinct_group_keys)
  moreover have "set (map summary_key (weekly (main E df)))
       = {(week r, t) |r t. r \<in> set ?n \<and> t \<in> set (all_tags r)}"
    by (simp only: weekly_main set_summary_keys)
  ultimately show ?thesis
    using exploded_concat [of ?n] d row demo_tags demo_key_posts by blast
qed

theorem weekly_aggregation_witness:
  "map (\<lambda>r. post_id (src r)) (normalized (demo_env True) four_posts)
     = [Some ''p1'', Some ''p2'', Some ''p3'', Some ''p4'']
   \<and> derive (demo_env True) (post2, ''2025-01-01'') \<in> set (normalized (demo_env True) four_posts)
   \<and> distinct (all_tags (derive (demo_env True) (post2, ''2025-01-01'')))
   \<and> denim_row \<in> set (weekly (main (demo_env True) four_posts))
   \<and> map (\<lambda>r. post_id (src r))
        (tagged_in (normalized (demo_env True) four_posts) (summary_key denim_row))
       = [Some ''p1'', Some ''p2'']
   \<and> length (group_of (exploded (normalized (demo_env True) four_posts)) (summary_key denim_row)) = 2
   \<and> sum_list (map engagement (tagged_in (normalized (demo_env True) four_posts) (summary_key denim_row)))
       / real (length (tagged_in (normalized (demo_env True) four_posts) (summary_key denim_row)))
       = 17 / 2"
proof -
  let ?r = "derive (demo_env True) (post2, ''2025-01-01'')"
  let ?g = "tagged_in (normalized (demo_env True) four_posts) (summary_key denim_row)"
  have i: "map (\<lambda>r. post_id (src r)) (normalized (demo_env True) four_posts)
     = [Some ''p1'', Some ''p2'', Some ''p3'', Some ''p4'']"
    by code_simp
  have r: "?r \<in> set (normalized (demo_env True) four_posts)"
    by (simp add: normalized_def demo_survivors)
  have s: "denim_row \<in> set (weekly (main (demo_env True) four_posts))"
    by (simp add: demo_weekly denim_row_def)
  have v: "posts denim_row = 2" "avg_engagement denim_row = Some (17 / 2)"
    by (simp_all add: denim_row_def)
  note th = weekly_aggregation [OF demo_ids, of ?r denim_row, unfolded Let_def]
  from th r have a: "distinct (all_tags ?r)" by blast
  from th s have "posts denim_row
      = length (group_of (exploded (normalized (demo_env True) four_posts)) (summary_key denim_row))"
    by blast
  then have b: "length (group_of (exploded (normalized (demo_env True) four_posts))
      (summary_key denim_row)) = 2" by (simp only: v)
  from th s have "avg_engagement denim_row
      = Some (sum_list (map engagement ?g) / real (length ?g))" by blast
  then have d: "sum_list (map engagement ?g) / real (length ?g) = 17 / 2" by (simp only: v) simp
  from i r a s demo_group_ids b d show ?thesis by blast
qed

subsection \<open>Delta ranking\<close>

text \<open>
  C2. What the script does with a tag that has rows in the prior weeks only: in the table
  of four weeks, \<open>red\<close> goes from 6 posts in the prior weeks to 2 in the recent ones and
  \<open>blue\<close> from 1 to none. The subtraction leaves \<open>blue\<close> without a value, which
  \<open>fillna(recent_sum)\<close> cannot fill, so \<open>blue\<close> is ranked last, although recent minus
  prior with 0 for the absent count is -1 for \<open>blue\<close> and -4 for \<open>red\<close>: the rising
  list is not ranked by that delta.
\<close>

theorem delta_of_vanished_tag:
  "2 \<le> length (weeks_sorted four_weeks)
   \<and> recent_weeks four_weeks = [''2025-W03'', ''2025-W04'']
   \<and> prior_weeks four_weeks = [''2025-W01'', ''2025-W02'']
   \<and> delta_series four_weeks = [(''red'', Some (- 4)), (''blue'', None)]
   \<and> rising_tags four_weeks = [''red'', ''blue'']
   \<and> spec_delta four_weeks ''red'' = - 4
   \<and> spec_delta four_weeks ''blue'' = - 1
   \<and> \<not> ranked_desc (spec_delta four_weeks) (rising_tags four_weeks)"
  by code_simp

end
